theory Spec2Isabelle
  imports Main "HOL-Library.Sublist"
begin

section \<open>Text\<close>

text \<open>
  The script \<^verbatim>\<open>tools/patch_rustdesk_android.py\<close> works on Python \<^verbatim>\<open>str\<close> values. They
  are modelled as \<^typ>\<open>string\<close>, a \<^typ>\<open>char\<close> standing for a code point below 256; the
  character classes below are the ones Python's \<^verbatim>\<open>re\<close> uses on \<^verbatim>\<open>str\<close> patterns, restricted
  to that range.
\<close>

definition code :: "char \<Rightarrow> nat" where
  "code c = of_char c"

text \<open>\<^verbatim>\<open>\s\<close>: the code points for which \<^verbatim>\<open>str.isspace\<close> holds.\<close>

definition is_space :: "char \<Rightarrow> bool" where
  "is_space c =
     ((9 \<le> code c \<and> code c \<le> 13) \<or> (28 \<le> code c \<and> code c \<le> 32) \<or>
      code c = 133 \<or> code c = 160)"

text \<open>\<^verbatim>\<open>\w\<close>: the alphanumeric code points and the underscore.\<close>

definition is_word :: "char \<Rightarrow> bool" where
  "is_word c =
     ((48 \<le> code c \<and> code c \<le> 57) \<or> (65 \<le> code c \<and> code c \<le> 90) \<or> code c = 95 \<or>
      (97 \<le> code c \<and> code c \<le> 122) \<or>
      code c = 170 \<or> code c = 178 \<or> code c = 179 \<or> code c = 181 \<or> code c = 185 \<or>
      code c = 186 \<or> code c = 188 \<or> code c = 189 \<or> code c = 190 \<or>
      (192 \<le> code c \<and> code c \<le> 214) \<or> (216 \<le> code c \<and> code c \<le> 246) \<or>
      248 \<le> code c)"

definition is_digit :: "char \<Rightarrow> bool" where
  "is_digit c = (48 \<le> code c \<and> code c \<le> 57)"

definition is_octdigit :: "char \<Rightarrow> bool" where
  "is_octdigit c = (48 \<le> code c \<and> code c \<le> 55)"

definition is_ascii_letter :: "char \<Rightarrow> bool" where
  "is_ascii_letter c = ((65 \<le> code c \<and> code c \<le> 90) \<or> (97 \<le> code c \<and> code c \<le> 122))"

definition digit_val :: "char \<Rightarrow> nat" where
  "digit_val c = code c - 48"

text \<open>Python's \<^verbatim>\<open>needle in s\<close> on strings: \<open>needle\<close> occurs in \<open>s\<close> as a contiguous run.\<close>

primrec contains :: "string \<Rightarrow> string \<Rightarrow> bool" where
  "contains needle [] = (needle = [])"
| "contains needle (c # cs) = (prefix needle (c # cs) \<or> contains needle cs)"

section \<open>The fragment of regular expressions the script compiles\<close>

text \<open>
  Every pattern of \<^verbatim>\<open>build_rules\<close> is a sequence of: a literal (plain text, or
  \<^verbatim>\<open>re.escape\<close> of a configuration value), \<^verbatim>\<open>\s+\<close>, the non-greedy \<^verbatim>\<open>.*?\<close> under
  \<^verbatim>\<open>re.DOTALL\<close>, an alternation \<^verbatim>\<open>(?:a|b|...)\<close> of literals, \<^verbatim>\<open>\b\<close>, and the parentheses
  of a capturing group (never nested).
\<close>

datatype elem = Lit string | Spaces1 | LazyAny | Alt "string list" | WordB | GOpen | GClose

type_synonym regex = "elem list"

text \<open>The first candidate, in the order tried, on which the rest of the pattern matches.\<close>

primrec first_some :: "('a \<Rightarrow> 'b option) \<Rightarrow> 'a list \<Rightarrow> 'b option" where
  "first_some f [] = None"
| "first_some f (x # xs) = (case f x of Some y \<Rightarrow> Some y | None \<Rightarrow> first_some f xs)"

text \<open>The character before the current position, after the piece \<open>p\<close> has been consumed.\<close>

definition last_char :: "char option \<Rightarrow> string \<Rightarrow> char option" where
  "last_char prev p = (if p = [] then prev else Some (last p))"

text \<open>
  \<^verbatim>\<open>\b\<close> holds where exactly one of the characters before and after the position is a word
  character; the two ends of the text count as non-word characters.
\<close>

definition word_at :: "char option \<Rightarrow> bool" where
  "word_at c = (case c of None \<Rightarrow> False | Some x \<Rightarrow> is_word x)"

definition boundary :: "char option \<Rightarrow> string \<Rightarrow> bool" where
  "boundary prev s = (word_at prev \<noteq> word_at (case s of [] \<Rightarrow> None | c # _ \<Rightarrow> Some c))"

text \<open>
  The backtracking matcher at one position. \<open>prev\<close> is the character before the position,
  \<open>s\<close> the text from the position on. \<open>need\<close> says the match must still consume a
  character (the engine refuses an empty match where the previous match ended empty). The
  result lists, element by element, the text each element of the pattern consumed, for the
  first match in the engine's order: alternatives left to right, \<^verbatim>\<open>\s+\<close> longest first,
  \<^verbatim>\<open>.*?\<close> shortest first.
\<close>

primrec mt :: "regex \<Rightarrow> char option \<Rightarrow> bool \<Rightarrow> string \<Rightarrow> string list option" where
  "mt [] prev need s = (if need then None else Some [])"
| "mt (e # es) prev need s =
     (let step = (\<lambda>p. map_option ((#) p)
                   (mt es (last_char prev p) (need \<and> p = []) (drop (length p) s)))
      in case e of
           Lit l \<Rightarrow> if prefix l s then step l else None
         | Spaces1 \<Rightarrow>
             first_some (\<lambda>j. step (take j s)) (rev [1 ..< Suc (length (takeWhile is_space s))])
         | LazyAny \<Rightarrow> first_some (\<lambda>j. step (take j s)) [0 ..< Suc (length s)]
         | Alt as \<Rightarrow> first_some (\<lambda>a. if prefix a s then step a else None) as
         | WordB \<Rightarrow> if boundary prev s then step [] else None
         | GOpen \<Rightarrow> step []
         | GClose \<Rightarrow> step [])"

text \<open>The texts of the capturing groups, in the order the groups open.\<close>

fun groups :: "regex \<Rightarrow> string list \<Rightarrow> string option \<Rightarrow> string list" where
  "groups (GOpen # es) (p # ps) cur = groups es ps (Some [])"
| "groups (GClose # es) (p # ps) cur =
     (case cur of Some g \<Rightarrow> g # groups es ps None | None \<Rightarrow> groups es ps None)"
| "groups (e # es) (p # ps) cur = groups es ps (map_option (\<lambda>g. g @ p) cur)"
| "groups es ps cur = []"

definition ngroups :: "regex \<Rightarrow> nat" where
  "ngroups r = length (filter (\<lambda>e. e = GOpen) r)"

section \<open>Replacement templates\<close>

text \<open>
  \<^verbatim>\<open>pat.sub(repl, s)\<close> with a string \<open>repl\<close> processes the backslash escapes of \<open>repl\<close>
  before it looks for a match: \<^verbatim>\<open>\1\<close> .. \<^verbatim>\<open>\99\<close> and \<^verbatim>\<open>\g<n>\<close> refer to groups, \<^verbatim>\<open>\0\<close> and three
  octal digits are a character, \<^verbatim>\<open>\n\<close> and its kin are control characters, a backslash before
  any other ASCII letter or at the end is an error, and a backslash before anything else
  stays. A reference to a group the pattern does not have is an error. (None of the
  patterns names a group, so every \<^verbatim>\<open>\g<name>\<close> whose name is not a decimal number fails.)
\<close>

datatype error = BadEscape | MissingAngle | BadGroupName | InvalidGroupReference | OctalOutOfRange

datatype titem = TChar char | TGroup nat

primrec nat_of_digits :: "nat \<Rightarrow> nat \<Rightarrow> string \<Rightarrow> nat" where
  "nat_of_digits base acc [] = acc"
| "nat_of_digits base acc (c # cs) = nat_of_digits base (base * acc + digit_val c) cs"

definition escape_char :: "char \<Rightarrow> char option" where
  "escape_char c =
     (if c = CHR ''a'' then Some (char_of (7::nat))
      else if c = CHR ''b'' then Some (char_of (8::nat))
      else if c = CHR ''f'' then Some (char_of (12::nat))
      else if c = CHR ''n'' then Some (char_of (10::nat))
      else if c = CHR ''r'' then Some (char_of (13::nat))
      else if c = CHR ''t'' then Some (char_of (9::nat))
      else if c = CHR ''v'' then Some (char_of (11::nat))
      else if c = CHR 0x5C then Some (CHR 0x5C)
      else None)"

text \<open>
  \<open>parse_escape g c rest\<close>: the template continues with a backslash, the character \<open>c\<close> and
  \<open>rest\<close>. The result is the items of the escape and what is left of the template.
\<close>

definition parse_escape :: "nat \<Rightarrow> char \<Rightarrow> string \<Rightarrow> error + (titem list \<times> string)" where
  "parse_escape g c rest =
     (if c = CHR ''g'' then
        (case rest of
           [] \<Rightarrow> Inl MissingAngle
         | d # ds \<Rightarrow>
             if d \<noteq> CHR ''<'' then Inl MissingAngle
             else let name = takeWhile is_digit ds; after = dropWhile is_digit ds
                  in if name = [] \<or> after = [] \<or> hd after \<noteq> CHR ''>'' then Inl BadGroupName
                     else if nat_of_digits 10 0 name > g then Inl InvalidGroupReference
                     else Inr ([TGroup (nat_of_digits 10 0 name)], tl after))
      else if c = CHR ''0'' then
        (let ds = takeWhile is_octdigit (take 2 rest)
         in Inr ([TChar (char_of (nat_of_digits 8 0 ds mod 256))], drop (length ds) rest))
      else if is_digit c then
        (case rest of
           [] \<Rightarrow> if digit_val c > g then Inl InvalidGroupReference
                 else Inr ([TGroup (digit_val c)], rest)
         | d # ds \<Rightarrow>
             if \<not> is_digit d then
               (if digit_val c > g then Inl InvalidGroupReference
                else Inr ([TGroup (digit_val c)], rest))
             else if is_octdigit c \<and> is_octdigit d \<and> ds \<noteq> [] \<and> is_octdigit (hd ds) then
               (let v = 64 * digit_val c + 8 * digit_val d + digit_val (hd ds)
                in if v > 255 then Inl OctalOutOfRange else Inr ([TChar (char_of v)], tl ds))
             else if 10 * digit_val c + digit_val d > g then Inl InvalidGroupReference
             else Inr ([TGroup (10 * digit_val c + digit_val d)], ds))
      else
        (case escape_char c of
           Some e \<Rightarrow> Inr ([TChar e], rest)
         | None \<Rightarrow> if is_ascii_letter c then Inl BadEscape
                   else Inr ([TChar (CHR 0x5C), TChar c], rest)))"

lemma parse_escape_length:
  "parse_escape g c rest = Inr (items, rest') \<Longrightarrow> length rest' \<le> length rest"
proof -
  have dw: "length (dropWhile P xs) - Suc 0 \<le> Suc (length xs)" for P and xs :: string
    using length_dropWhile_le [of P xs] by simp
  assume "parse_escape g c rest = Inr (items, rest')"
  then show ?thesis
    by (auto simp: parse_escape_def Let_def dw split: if_splits list.splits option.splits)
qed

function parse_template :: "nat \<Rightarrow> string \<Rightarrow> error + titem list" where
  "parse_template g [] = Inr []"
| "parse_template g (c # cs) =
     (if c \<noteq> CHR 0x5C then
        (case parse_template g cs of Inl e \<Rightarrow> Inl e | Inr more \<Rightarrow> Inr (TChar c # more))
      else
        (case cs of
           [] \<Rightarrow> Inl BadEscape
         | d # ds \<Rightarrow>
             (case parse_escape g d ds of
                Inl e \<Rightarrow> Inl e
              | Inr (items, rest) \<Rightarrow>
                  (case parse_template g rest of
                     Inl e \<Rightarrow> Inl e
                   | Inr more \<Rightarrow> Inr (items @ more)))))"
  by pat_completeness auto
termination
  by (relation "measure (\<lambda>(g, s). length s)") (auto dest: parse_escape_length)

text \<open>The replacement text for one match: \<open>whole\<close> is the match, \<open>gs\<close> its groups.\<close>

primrec expand :: "titem list \<Rightarrow> string \<Rightarrow> string list \<Rightarrow> string" where
  "expand [] whole gs = []"
| "expand (t # ts) whole gs =
     (case t of
        TChar c \<Rightarrow> c # expand ts whole gs
      | TGroup n \<Rightarrow> (if n = 0 then whole else gs ! (n - 1)) @ expand ts whole gs)"

section \<open>Substitution\<close>

lemma first_some_SomeD:
  "first_some f xs = Some y \<Longrightarrow> \<exists>x \<in> set xs. f x = Some y"
  by (induction xs) (auto split: option.splits)

lemma mt_ConsD:
  assumes "mt (e # es) prev need s = Some ps"
  shows "\<exists>p qs. ps = p # qs \<and> prefix p s \<and>
           mt es (last_char prev p) (need \<and> p = []) (drop (length p) s) = Some qs"
proof (cases e)
  case (Lit l)
  with assms show ?thesis by (auto split: if_splits)
next
  case Spaces1
  with assms show ?thesis by (auto dest!: first_some_SomeD simp: take_is_prefix)
next
  case LazyAny
  with assms show ?thesis by (auto dest!: first_some_SomeD simp: take_is_prefix)
next
  case (Alt as)
  with assms show ?thesis by (auto dest!: first_some_SomeD split: if_splits)
next
  case WordB
  with assms show ?thesis by (auto split: if_splits)
next
  case GOpen
  with assms show ?thesis by auto
next
  case GClose
  with assms show ?thesis by auto
qed

lemma mt_need_nonempty: "mt es prev True s = Some ps \<Longrightarrow> concat ps \<noteq> []"
proof (induction es arbitrary: prev s ps)
  case Nil
  then show ?case by simp
next
  case (Cons e es)
  from mt_ConsD [OF Cons.prems] obtain p qs where
    ps: "ps = p # qs" and
    rest: "mt es (last_char prev p) (True \<and> p = []) (drop (length p) s) = Some qs"
    by blast
  show ?case
  proof (cases "p = []")
    case True
    with rest Cons.IH show ?thesis by (simp add: ps)
  next
    case False
    then show ?thesis by (simp add: ps)
  qed
qed

lemma mt_consumes: "mt es prev need s = Some ps \<Longrightarrow> prefix (concat ps) s"
proof (induction es arbitrary: prev need s ps)
  case Nil
  then show ?case by (simp split: if_splits)
next
  case (Cons e es)
  from mt_ConsD [OF Cons.prems] obtain p qs where
    ps: "ps = p # qs" and p: "prefix p s" and
    rest: "mt es (last_char prev p) (need \<and> p = []) (drop (length p) s) = Some qs"
    by blast
  from Cons.IH [OF rest] have "prefix (concat qs) (drop (length p) s)" .
  with p show ?case by (auto simp: ps prefix_def)
qed

text \<open>
  \<^verbatim>\<open>pat.sub\<close> scans the text from left to right. At each position it takes the first match
  there, writes the expanded template and goes on after the match; where nothing matches it
  copies one character. After an empty match it looks again at the same position for a match
  that is not empty, so an empty pattern puts the replacement before every character and at
  the end.
\<close>

function subn :: "regex \<Rightarrow> titem list \<Rightarrow> char option \<Rightarrow> bool \<Rightarrow> string \<Rightarrow> string" where
  "subn r t prev adv s =
     (case mt r prev adv s of
        None \<Rightarrow> (case s of [] \<Rightarrow> [] | c # cs \<Rightarrow> c # subn r t (Some c) False cs)
      | Some ps \<Rightarrow>
          expand t (concat ps) (groups r ps None) @
          (if concat ps = [] then subn r t prev True s
           else subn r t (Some (last (concat ps))) False (drop (length (concat ps)) s)))"
  by pat_completeness auto
termination
proof (relation "measure (\<lambda>(r, t, prev, adv, s). 2 * length s + (if adv then 0 else 1))",
    goal_cases)
  case 1
  then show ?case by simp
next
  case (2 r t prev adv s c cs)
  then show ?case by simp
next
  case (3 r t prev adv s ps)
  then have "\<not> adv" using mt_need_nonempty [of r prev s ps] by auto
  then show ?case by simp
next
  case (4 r t prev adv s ps)
  from mt_consumes [OF 4(1)] 4(2) have "length (drop (length (concat ps)) s) < length s"
    by (auto simp: prefix_def)
  then show ?case by simp
qed

declare subn.simps [simp del]

definition re_sub :: "regex \<Rightarrow> string \<Rightarrow> string \<Rightarrow> error + string" where
  "re_sub r repl s =
     (case parse_template (ngroups r) repl of
        Inl e \<Rightarrow> Inl e
      | Inr t \<Rightarrow> Inr (subn r t None False s))"

section \<open>Configuration and rules\<close>

record PatchConfig =
  old_package :: string
  new_package :: string
  old_app_name :: string
  new_app_name :: string
  old_scheme :: string
  new_scheme :: string
  old_service :: string
  new_service :: string
  accessibility_desc :: string

text \<open>
  \<^verbatim>\<open>mapping\<close> builds a dictionary with two keys; when the two keys are the same string the
  dictionary has one entry, at the first key's place and with the second value.
\<close>

definition mapping :: "PatchConfig \<Rightarrow> (string \<times> string) list" where
  "mapping cfg =
     (if old_package cfg = old_app_name cfg then [(old_package cfg, new_app_name cfg)]
      else [(old_package cfg, new_package cfg), (old_app_name cfg, new_app_name cfg)])"

text \<open>\<^verbatim>\<open>re.compile(rf"\b{re.escape(word)}\b")\<close>\<close>

definition safe_word_replace :: "string \<Rightarrow> regex" where
  "safe_word_replace word = [WordB, Lit word, WordB]"

text \<open>\<^verbatim>\<open>(<string\s+name="NAME">).*?(</string>)\<close> with \<^verbatim>\<open>re.DOTALL\<close>\<close>

definition string_field :: "string \<Rightarrow> regex" where
  \<open>string_field name =
     [GOpen, Lit ''<string'', Spaces1, Lit (''name="'' @ name @ ''">''), GClose,
      LazyAny, GOpen, Lit ''</string>'', GClose]\<close>

definition backref :: "nat \<Rightarrow> string" where
  "backref n = [CHR 0x5C, char_of (48 + n)]"

definition fixed_strings :: "PatchConfig \<Rightarrow> (string \<times> string) list" where
  "fixed_strings cfg =
     [(''RustDesk Input'', new_app_name cfg @ '' Input''),
      (''RustDesk Service'', new_app_name cfg @ '' Service''),
      (''RustDesk Service Channel'', new_app_name cfg @ '' Service Channel''),
      (''Show RustDesk'', ''Show '' @ new_app_name cfg)]"

definition build_rules :: "PatchConfig \<Rightarrow> (regex \<times> string) list" where
  \<open>build_rules cfg =
     map (\<lambda>(old, new). ([Lit old], new)) (mapping cfg) @
     [(string_field ''accessibility_service_description'',
         backref 1 @ accessibility_desc cfg @ backref 2),
      (string_field ''app_name'', backref 1 @ new_app_name cfg @ backref 2),
      ([Lit ''android:name=".'', Lit (old_service cfg), Lit ''"''],
         ''android:name=".'' @ new_service cfg @ ''"''),
      (safe_word_replace (old_service cfg), new_service cfg)] @
     map (\<lambda>(old, new). ([Lit old], new)) (fixed_strings cfg) @
     [([Lit ''"input'', Spaces1, Lit ''service"''], ''"Todd service"''),
      (safe_word_replace ''idShowRustDesk'', ''idShowToddDesk''),
      ([Lit ''android:scheme="'', Lit (old_scheme cfg), Lit ''"''],
         ''android:scheme="'' @ new_scheme cfg @ ''"''),
      ([Lit (old_scheme cfg), Lit ''://''], new_scheme cfg @ ''://''),
      ([Lit ''System.loadLibrary("'',
        Alt [old_scheme cfg, new_scheme cfg, ''rustdesk'', ''todddesk''], Lit ''")''],
         ''System.loadLibrary("rustdesk")''),
      ([Lit ''lib'', Lit (new_scheme cfg), Lit ''.so''], ''librustdesk.so''),
      ([Lit ''libtodddesk.so''], ''librustdesk.so'')]\<close>

text \<open>The loop of \<^verbatim>\<open>replace_in_file\<close>: every rule in order, each on the result of the one before.\<close>

primrec apply_rules :: "(regex \<times> string) list \<Rightarrow> string \<Rightarrow> error + string" where
  "apply_rules [] s = Inr s"
| "apply_rules (r # rs) s =
     (case re_sub (fst r) (snd r) s of Inl e \<Rightarrow> Inl e | Inr s' \<Rightarrow> apply_rules rs s')"

text \<open>The defaults of the command line.\<close>

definition default_cfg :: PatchConfig where
  "default_cfg =
     \<lparr>old_package = ''com.carriez.flutter_hbb'', new_package = ''com.celonis.work'',
      old_app_name = ''RustDesk'', new_app_name = ''ToddDesk'',
      old_scheme = ''rustdesk'', new_scheme = ''todddesk'',
      old_service = ''InputService'', new_service = ''ToddService'',
      accessibility_desc = ''Made by Todd''\<rparr>"

section \<open>Files\<close>

text \<open>
  A path is the list of its components from the root of the file system; the tree lists
  every file and directory with its path, in the order a traversal meets them. A file
  holds text: decoding is left out (the script decodes with \<^verbatim>\<open>errors="replace"\<close>, which
  accepts every byte sequence). \<open>written\<close> records the calls of \<^verbatim>\<open>write_text\<close>.
\<close>

type_synonym path = "string list"

datatype node = File string | Dir

record world =
  tree :: "(path \<times> node) list"
  written :: "path list"

datatype failure =
    NoAndroidRoot
  | RegexError error
  | NotFound path
  | IsADirectory path
  | NotADirectory path
  | FileExists path
  | SameFile path
  | CopyFailed path
  | MoveIntoItself path
  | MustContain path string
  | MustNotContain path string
  | OldPackageRemains "path list"
  | NativeLibraryAltered "path list"
  | LoadLibraryAltered "path list"

definition node_at :: "world \<Rightarrow> path \<Rightarrow> node option" where
  "node_at w p = (if p = [] then Some Dir else map_of (tree w) p)"

definition path_exists :: "world \<Rightarrow> path \<Rightarrow> bool" where
  "path_exists w p = (node_at w p \<noteq> None)"

definition is_file :: "world \<Rightarrow> path \<Rightarrow> bool" where
  "is_file w p = (case node_at w p of Some (File c) \<Rightarrow> True | _ \<Rightarrow> False)"

definition is_dir :: "world \<Rightarrow> path \<Rightarrow> bool" where
  "is_dir w p = (node_at w p = Some Dir)"

text \<open>Storing a node: in place when the path is there, at the end otherwise.\<close>

primrec put :: "path \<Rightarrow> node \<Rightarrow> (path \<times> node) list \<Rightarrow> (path \<times> node) list" where
  "put p n [] = [(p, n)]"
| "put p n (e # es) = (if fst e = p then (p, n) # es else e # put p n es)"

text \<open>
  Reading in text mode turns \<^verbatim>\<open>\r\n\<close> and a lone \<^verbatim>\<open>\r\<close> into \<^verbatim>\<open>\n\<close>; writing with
  \<^verbatim>\<open>newline="\n"\<close> stores the text as it is.
\<close>

fun universal_newlines :: "string \<Rightarrow> string" where
  "universal_newlines [] = []"
| "universal_newlines [c] = [if c = CHR 0x0D then CHR 0x0A else c]"
| "universal_newlines (c # d # cs) =
     (if c = CHR 0x0D \<and> d = CHR 0x0A then CHR 0x0A # universal_newlines cs
      else if c = CHR 0x0D then CHR 0x0A # universal_newlines (d # cs)
      else c # universal_newlines (d # cs))"

definition read_text :: "world \<Rightarrow> path \<Rightarrow> failure + string" where
  "read_text w p =
     (case node_at w p of
        Some (File c) \<Rightarrow> Inr (universal_newlines c)
      | Some Dir \<Rightarrow> Inl (IsADirectory p)
      | None \<Rightarrow> Inl (NotFound p))"

definition write_text :: "path \<Rightarrow> string \<Rightarrow> world \<Rightarrow> failure + world" where
  "write_text p s w =
     (let w' = w\<lparr>tree := put p (File s) (tree w), written := written w @ [p]\<rparr>
      in case node_at w p of
           Some (File c) \<Rightarrow> Inr w'
         | Some Dir \<Rightarrow> Inl (IsADirectory p)
         | None \<Rightarrow>
             (case node_at w (butlast p) of
                Some Dir \<Rightarrow> Inr w'
              | Some (File c) \<Rightarrow> Inl (NotADirectory (butlast p))
              | None \<Rightarrow> Inl (NotFound (butlast p))))"

text \<open>\<^verbatim>\<open>root.rglob("*")\<close>: everything below a directory.\<close>

definition rglob :: "world \<Rightarrow> path \<Rightarrow> path list" where
  "rglob w root =
     (if is_dir w root then filter (strict_prefix root) (map fst (tree w)) else [])"

text \<open>
  \<^verbatim>\<open>p.suffix\<close>: the last component from its last dot on, unless that dot is the first or
  the last character of the component.
\<close>

definition suffix_of :: "path \<Rightarrow> string" where
  "suffix_of p =
     (let name = (if p = [] then [] else last p);
          ext = rev (takeWhile (\<lambda>c. c \<noteq> CHR ''.'') (rev name))
      in if CHR ''.'' \<in> set name \<and> ext \<noteq> [] \<and> Suc (length ext) < length name
         then CHR ''.'' # ext else [])"

definition lower_char :: "char \<Rightarrow> char" where
  "lower_char c =
     (if (65 \<le> code c \<and> code c \<le> 90) \<or> (192 \<le> code c \<and> code c \<le> 222 \<and> code c \<noteq> 215)
      then char_of (code c + 32) else c)"

definition lower :: "string \<Rightarrow> string" where
  "lower s = map lower_char s"

definition TEXT_EXTS :: "string list" where
  "TEXT_EXTS = [''.kt'', ''.java'', ''.xml'', ''.gradle'', ''.properties'', ''.txt'', ''.md'',
     ''.dart'']"

definition text_ext :: "path \<Rightarrow> bool" where
  "text_ext p = (lower (suffix_of p) \<in> set TEXT_EXTS)"

definition iter_text_files :: "world \<Rightarrow> path \<Rightarrow> path list" where
  "iter_text_files w root = filter (\<lambda>p. is_file w p \<and> text_ext p) (rglob w root)"

section \<open>The rewriter\<close>

definition replace_in_file ::
  "path \<Rightarrow> (regex \<times> string) list \<Rightarrow> world \<Rightarrow> (failure + bool) \<times> world" where
  "replace_in_file p rules w =
     (case read_text w p of
        Inl e \<Rightarrow> (Inl e, w)
      | Inr src \<Rightarrow>
          (case apply_rules rules src of
             Inl e \<Rightarrow> (Inl (RegexError e), w)
           | Inr dst \<Rightarrow>
               if dst \<noteq> src then
                 (case write_text p dst w of
                    Inl e \<Rightarrow> (Inl e, w)
                  | Inr w' \<Rightarrow> (Inr True, w'))
               else (Inr False, w)))"

text \<open>
  The first loop of \<^verbatim>\<open>main\<close>: \<open>scanned\<close> counts the files, \<open>changed\<close> collects the paths,
  relative to the repository, of the files \<^verbatim>\<open>replace_in_file\<close> reports as changed.
\<close>

primrec rewrite_files ::
  "path \<Rightarrow> (regex \<times> string) list \<Rightarrow> path list \<Rightarrow> nat \<Rightarrow> path list \<Rightarrow> world
     \<Rightarrow> (failure + nat \<times> path list) \<times> world" where
  "rewrite_files repo rules [] scanned changed w = (Inr (scanned, changed), w)"
| "rewrite_files repo rules (f # fs) scanned changed w =
     (case replace_in_file f rules w of
        (Inl e, w') \<Rightarrow> (Inl e, w')
      | (Inr b, w') \<Rightarrow>
          rewrite_files repo rules fs (Suc scanned)
            (if b then changed @ [drop (length repo) f] else changed) w')"

section \<open>The directory migrator\<close>

text \<open>\<^verbatim>\<open>str(p)\<close> of an absolute path and \<^verbatim>\<open>p.as_posix()\<close> of a relative one.\<close>

definition path_str :: "path \<Rightarrow> string" where
  "path_str p = (if p = [] then ''/'' else concat (map (\<lambda>c. CHR ''/'' # c) p))"

definition as_posix :: "path \<Rightarrow> string" where
  "as_posix p = (if p = [] then ''.'' else tl (concat (map (\<lambda>c. CHR ''/'' # c) p)))"

text \<open>\<^verbatim>\<open>s.split(sep)\<close> for a separator of one character.\<close>

primrec split_on :: "char \<Rightarrow> string \<Rightarrow> string list" where
  "split_on sep [] = [[]]"
| "split_on sep (c # cs) =
     (if c = sep then [] # split_on sep cs
      else (case split_on sep cs of [] \<Rightarrow> [[c]] | w # ws \<Rightarrow> (c # w) # ws))"

text \<open>
  \<^verbatim>\<open>kotlin_root / Path(*pkg.split("."))\<close>: each segment adds its components (a segment may
  hold slashes; empty components vanish), and a segment that starts with a slash starts
  again from the root of the file system.
\<close>

definition join_seg :: "path \<Rightarrow> string \<Rightarrow> path" where
  "join_seg base seg =
     (let comps = filter (\<lambda>c. c \<noteq> []) (split_on CHR ''/'' seg)
      in if seg \<noteq> [] \<and> hd seg = CHR ''/'' then comps else base @ comps)"

definition package_dir :: "path \<Rightarrow> string \<Rightarrow> path" where
  "package_dir root pkg = foldl join_seg root (split_on CHR ''.'' pkg)"

definition kotlin_root :: "path \<Rightarrow> path" where
  "kotlin_root repo = repo @ [''flutter'', ''android'', ''app'', ''src'', ''main'', ''kotlin'']"

text \<open>
  \<^verbatim>\<open>p.mkdir(parents=True, exist_ok=True)\<close>: the missing directories on the way to \<open>p\<close> are
  created; a file on the way, or at \<open>p\<close>, is an error.
\<close>

primrec mkdirs :: "path \<Rightarrow> path \<Rightarrow> world \<Rightarrow> failure + world" where
  "mkdirs base [] w = Inr w"
| "mkdirs base (c # cs) w =
     (case node_at w (base @ [c]) of
        Some Dir \<Rightarrow> mkdirs (base @ [c]) cs w
      | Some (File x) \<Rightarrow>
          Inl (if cs = [] then FileExists (base @ [c]) else NotADirectory (base @ [c]))
      | None \<Rightarrow> mkdirs (base @ [c]) cs (w\<lparr>tree := tree w @ [(base @ [c], Dir)]\<rparr>))"

definition mkdir_parents :: "path \<Rightarrow> world \<Rightarrow> failure + world" where
  "mkdir_parents p w = mkdirs [] p w"

text \<open>
  \<^verbatim>\<open>shutil.copy2(item, dst)\<close>: when \<open>dst\<close> is a directory the file goes into it under its
  own name. \<open>faulty\<close> tells for which files the copy fails for a reason outside the tree
  (permissions, a full disk).
\<close>

definition copy2 :: "(path \<Rightarrow> bool) \<Rightarrow> path \<Rightarrow> path \<Rightarrow> world \<Rightarrow> failure + world" where
  "copy2 faulty item dst w =
     (case node_at w item of
        Some (File c) \<Rightarrow>
          (let target = (if is_dir w dst then dst @ [last item] else dst)
           in if faulty item then Inl (CopyFailed item)
              else if target = item then Inl (SameFile item)
              else if is_dir w target then Inl (IsADirectory target)
              else Inr (w\<lparr>tree := put target (File c) (tree w)\<rparr>))
      | Some Dir \<Rightarrow> Inl (IsADirectory item)
      | None \<Rightarrow> Inl (NotFound item))"

text \<open>The loop of the merge, over the listing of the old directory.\<close>

primrec copy_files ::
  "(path \<Rightarrow> bool) \<Rightarrow> path \<Rightarrow> path \<Rightarrow> path list \<Rightarrow> world \<Rightarrow> (failure + unit) \<times> world" where
  "copy_files faulty old_dir new_dir [] w = (Inr (), w)"
| "copy_files faulty old_dir new_dir (item # items) w =
     (if is_file w item then
        (let dst = new_dir @ drop (length old_dir) item
         in case mkdir_parents (butlast dst) w of
              Inl e \<Rightarrow> (Inl e, w)
            | Inr w1 \<Rightarrow>
                (case copy2 faulty item dst w1 of
                   Inl e \<Rightarrow> (Inl e, w1)
                 | Inr w2 \<Rightarrow> copy_files faulty old_dir new_dir items w2))
      else copy_files faulty old_dir new_dir items w)"

text \<open>\<^verbatim>\<open>shutil.rmtree(d, ignore_errors=True)\<close>: nothing happens when \<open>d\<close> is not a directory.\<close>

definition rmtree :: "path \<Rightarrow> world \<Rightarrow> world" where
  "rmtree d w =
     (if is_dir w d then w\<lparr>tree := filter (\<lambda>e. \<not> prefix d (fst e)) (tree w)\<rparr> else w)"

text \<open>\<^verbatim>\<open>shutil.move(src, dst)\<close> where \<open>dst\<close> does not exist: a rename of the whole subtree.\<close>

definition move :: "path \<Rightarrow> path \<Rightarrow> world \<Rightarrow> failure + world" where
  "move src dst w =
     (let w' = w\<lparr>tree := map (\<lambda>e. if prefix src (fst e)
                                    then (dst @ drop (length src) (fst e), snd e) else e)
                              (tree w)\<rparr>
      in case node_at w src of
           Some Dir \<Rightarrow> if prefix src dst then Inl (MoveIntoItself src) else Inr w'
         | Some (File c) \<Rightarrow> Inr w'
         | None \<Rightarrow> Inl (NotFound src))"

definition move_kotlin_dir ::
  "path \<Rightarrow> PatchConfig \<Rightarrow> (path \<Rightarrow> bool) \<Rightarrow> string list \<Rightarrow> world
     \<Rightarrow> (failure + string list) \<times> world" where
  "move_kotlin_dir repo cfg faulty report_lines w =
     (if \<not> path_exists w (kotlin_root repo) then
        (Inr (report_lines @ [''- Kotlin root not found: '' @ path_str (kotlin_root repo)]), w)
      else
        let old_dir = package_dir (kotlin_root repo) (old_package cfg);
            new_dir = package_dir (kotlin_root repo) (new_package cfg)
        in if \<not> path_exists w old_dir then
             (Inr (report_lines @
                [''- Old kotlin dir not found (skip move): '' @ path_str old_dir]), w)
           else
             (case mkdir_parents (butlast new_dir) w of
                Inl e \<Rightarrow> (Inl e, w)
              | Inr w1 \<Rightarrow>
                  if path_exists w1 new_dir then
                    (case copy_files faulty old_dir new_dir (rglob w1 old_dir) w1 of
                       (Inl e, w2) \<Rightarrow> (Inl e, w2)
                     | (Inr u, w2) \<Rightarrow>
                         (Inr (report_lines @
                            [''- New kotlin dir exists, merge files: '' @ path_str new_dir,
                             ''- Deleted old kotlin dir: '' @ path_str old_dir]),
                          rmtree old_dir w2))
                  else
                    (case move old_dir new_dir w1 of
                       Inl e \<Rightarrow> (Inl e, w1)
                     | Inr w2 \<Rightarrow>
                         (Inr (report_lines @
                            [''- Moved kotlin dir: '' @ path_str old_dir @ '' -> '' @
                             path_str new_dir]), w2))))"

section \<open>The validator\<close>

definition must_contain :: "world \<Rightarrow> path \<Rightarrow> string \<Rightarrow> failure + unit" where
  "must_contain w p needle =
     (case read_text w p of
        Inl e \<Rightarrow> Inl e
      | Inr s \<Rightarrow> if \<not> contains needle s then Inl (MustContain p needle) else Inr ())"

definition must_not_contain :: "world \<Rightarrow> path \<Rightarrow> string \<Rightarrow> failure + unit" where
  "must_not_contain w p needle =
     (case read_text w p of
        Inl e \<Rightarrow> Inl e
      | Inr s \<Rightarrow> if contains needle s then Inl (MustNotContain p needle) else Inr ())"

primrec scan_files :: "world \<Rightarrow> string \<Rightarrow> path list \<Rightarrow> failure + path list" where
  "scan_files w needle [] = Inr []"
| "scan_files w needle (f # fs) =
     (case read_text w f of
        Inl e \<Rightarrow> Inl e
      | Inr s \<Rightarrow>
          (case scan_files w needle fs of
             Inl e \<Rightarrow> Inl e
           | Inr hits \<Rightarrow> Inr (if contains needle s then f # hits else hits)))"

definition scan_any :: "world \<Rightarrow> path \<Rightarrow> string \<Rightarrow> failure + path list" where
  "scan_any w root needle = scan_files w needle (iter_text_files w root)"

definition android_root :: "path \<Rightarrow> path" where
  "android_root repo = repo @ [''flutter'', ''android'']"

definition gradle :: "path \<Rightarrow> path" where
  "gradle repo = repo @ [''flutter'', ''android'', ''app'', ''build.gradle'']"

definition manifest :: "path \<Rightarrow> path" where
  "manifest repo =
     repo @ [''flutter'', ''android'', ''app'', ''src'', ''main'', ''AndroidManifest.xml'']"

text \<open>The checks run in order; the first that fails ends the run.\<close>

primrec first_failure :: "(failure + unit) list \<Rightarrow> failure option" where
  "first_failure [] = None"
| "first_failure (c # cs) = (case c of Inl e \<Rightarrow> Some e | Inr u \<Rightarrow> first_failure cs)"

text \<open>Check 3 of \<^verbatim>\<open>main\<close>: no text file below \<^verbatim>\<open>flutter/android\<close> holds the old package.\<close>

definition check_old_package :: "path \<Rightarrow> PatchConfig \<Rightarrow> world \<Rightarrow> failure + unit" where
  "check_old_package repo cfg w =
     (case scan_any w (android_root repo) (old_package cfg) of
        Inl e \<Rightarrow> Inl e
      | Inr hits_pkg \<Rightarrow> if hits_pkg \<noteq> [] then Inl (OldPackageRemains (take 50 hits_pkg)) else Inr ())"

text \<open>Checks 4 and 5: two scans each, then the test of both hit lists.\<close>

definition check_two_scans ::
  "path \<Rightarrow> world \<Rightarrow> string \<Rightarrow> string \<Rightarrow> (path list \<Rightarrow> failure) \<Rightarrow> failure + unit" where
  "check_two_scans repo w needle1 needle2 fail =
     (case scan_any w (android_root repo) needle1 of
        Inl e \<Rightarrow> Inl e
      | Inr hits1 \<Rightarrow>
          (case scan_any w (android_root repo) needle2 of
             Inl e \<Rightarrow> Inl e
           | Inr hits2 \<Rightarrow>
               if hits1 \<noteq> [] \<or> hits2 \<noteq> [] then Inl (fail (take 50 (hits1 @ hits2)))
               else Inr ()))"

definition validate :: "path \<Rightarrow> PatchConfig \<Rightarrow> world \<Rightarrow> failure option" where
  \<open>validate repo cfg w =
     first_failure
       [if path_exists w (gradle repo)
        then must_contain w (gradle repo) (''applicationId "'' @ new_package cfg @ ''"'')
        else Inr (),
        if path_exists w (gradle repo)
        then must_not_contain w (gradle repo) (''applicationId "'' @ old_package cfg @ ''"'')
        else Inr (),
        if path_exists w (manifest repo)
        then must_contain w (manifest repo) (''package="'' @ new_package cfg @ ''"'')
        else Inr (),
        if path_exists w (manifest repo)
        then must_contain w (manifest repo) (''android:name=".'' @ new_service cfg @ ''"'')
        else Inr (),
        if path_exists w (manifest repo)
        then must_contain w (manifest repo) (''android:scheme="'' @ new_scheme cfg @ ''"'')
        else Inr (),
        check_old_package repo cfg w,
        check_two_scans repo w (''lib'' @ new_scheme cfg @ ''.so'') ''libtodddesk.so''
          NativeLibraryAltered,
        check_two_scans repo w (''System.loadLibrary("'' @ new_scheme cfg @ ''")'')
          ''System.loadLibrary("todddesk")'' LoadLibraryAltered]\<close>

section \<open>The report and the run\<close>

fun string_of_nat :: "nat \<Rightarrow> string" where
  "string_of_nat n =
     (if n < 10 then [char_of (48 + n)]
      else string_of_nat (n div 10) @ [char_of (48 + n mod 10)])"

definition report_path :: "path \<Rightarrow> path" where
  "report_path repo = repo @ [''todd_patch_report.md'']"

definition report_text :: "PatchConfig \<Rightarrow> path list \<Rightarrow> string list \<Rightarrow> string" where
  \<open>report_text cfg changed_files report_lines =
     (let nl = [CHR 0x0A];
          target = (\<lambda>k v. ''- '' @ k @ '': `'' @ v @ ''`'' @ nl)
      in ''# Todd Android Patch Report'' @ nl @ nl @
         ''## Targets'' @ nl @ nl @
         target ''old_package'' (old_package cfg) @
         target ''new_package'' (new_package cfg) @
         target ''old_app_name'' (old_app_name cfg) @
         target ''new_app_name'' (new_app_name cfg) @
         target ''old_scheme'' (old_scheme cfg) @
         target ''new_scheme'' (new_scheme cfg) @
         target ''old_service'' (old_service cfg) @
         target ''new_service'' (new_service cfg) @
         target ''accessibility_desc'' (accessibility_desc cfg) @
         nl @ ''## File changes'' @ nl @ nl @
         ''- changed_files_count: **'' @ string_of_nat (length changed_files) @ ''**'' @ nl @
         concat (map (\<lambda>f. ''  - `'' @ as_posix f @ ''`'' @ nl) (take 400 changed_files)) @
         (if length changed_files > 400
          then ''  - ... and '' @ string_of_nat (length changed_files - 400) @ '' more'' @ nl
          else []) @
         nl @ ''## Directory move / notes'' @ nl @ nl @
         (if report_lines \<noteq> [] then concat (map (\<lambda>x. x @ nl) report_lines)
          else ''- (none)'' @ nl))\<close>

definition write_report ::
  "path \<Rightarrow> PatchConfig \<Rightarrow> path list \<Rightarrow> string list \<Rightarrow> world \<Rightarrow> failure + world" where
  "write_report repo cfg changed_files report_lines w =
     write_text (report_path repo) (report_text cfg changed_files report_lines) w"

text \<open>
  A run ends with the line \<^verbatim>\<open>[OK] scanned=.., changed_files=..\<close> and exit status 0, or with
  an exception that nothing catches, and a status that is not 0.
\<close>

datatype outcome = Success nat nat | Failure failure

definition exit_status :: "outcome \<Rightarrow> nat" where
  "exit_status out = (case out of Success scanned changed \<Rightarrow> 0 | Failure e \<Rightarrow> 1)"

text \<open>
  \<^verbatim>\<open>main\<close> up to the checks: the test for \<^verbatim>\<open>flutter/android\<close>, the rewriting of every text
  file, and the move of the Kotlin directory when \<^verbatim>\<open>--move-kotlin-dir\<close> is given. The
  result holds the counter, the changed files and the notes.
\<close>

definition patch ::
  "path \<Rightarrow> PatchConfig \<Rightarrow> bool \<Rightarrow> (path \<Rightarrow> bool) \<Rightarrow> world
     \<Rightarrow> (failure + nat \<times> path list \<times> string list) \<times> world" where
  "patch repo cfg move_dir faulty w =
     (if \<not> path_exists w (android_root repo) then (Inl NoAndroidRoot, w)
      else
        (case rewrite_files repo (build_rules cfg) (iter_text_files w (android_root repo)) 0 [] w of
           (Inl e, w1) \<Rightarrow> (Inl e, w1)
         | (Inr (scanned, changed_files), w1) \<Rightarrow>
             if move_dir then
               (case move_kotlin_dir repo cfg faulty [] w1 of
                  (Inl e, w2) \<Rightarrow> (Inl e, w2)
                | (Inr report_lines, w2) \<Rightarrow> (Inr (scanned, changed_files, report_lines), w2))
             else (Inr (scanned, changed_files, []), w1)))"

definition main ::
  "path \<Rightarrow> PatchConfig \<Rightarrow> bool \<Rightarrow> (path \<Rightarrow> bool) \<Rightarrow> world \<Rightarrow> outcome \<times> world" where
  "main repo cfg move_dir faulty w =
     (case patch repo cfg move_dir faulty w of
        (Inl e, w2) \<Rightarrow> (Failure e, w2)
      | (Inr (scanned, changed_files, report_lines), w2) \<Rightarrow>
          (case validate repo cfg w2 of
             Some e \<Rightarrow> (Failure e, w2)
           | None \<Rightarrow>
               (case write_report repo cfg changed_files report_lines w2 of
                  Inl e \<Rightarrow> (Failure e, w2)
                | Inr w3 \<Rightarrow> (Success scanned (length changed_files), w3))))"

section \<open>Notions used in the statements\<close>

text \<open>The text \<^verbatim>\<open>read_text\<close> returns for a file, and whether the rules change it.\<close>

definition text_of :: "world \<Rightarrow> path \<Rightarrow> string" where
  "text_of w p = (case node_at w p of Some (File c) \<Rightarrow> universal_newlines c | _ \<Rightarrow> [])"



text \<open>A small repository for the examples: two text files and a binary one.\<close>

definition demo_world :: world where
  "demo_world =
     \<lparr>tree =
        [([''r''], Dir),
         ([''r'', ''flutter''], Dir),
         ([''r'', ''flutter'', ''android''], Dir),
         ([''r'', ''flutter'', ''android'', ''a.kt''], File ''package com.carriez.flutter_hbb''),
         ([''r'', ''flutter'', ''android'', ''b.txt''], File ''hello''),
         ([''r'', ''flutter'', ''android'', ''c.bin''], File ''com.carriez.flutter_hbb'')],
      written = []\<rparr>"

text \<open>A configuration whose new package contains the old one.\<close>

definition pro_cfg :: PatchConfig where
  "pro_cfg = default_cfg\<lparr>new_package := ''com.carriez.flutter_hbb.pro''\<rparr>"

text \<open>The demo repository after the rules of \<open>pro_cfg\<close>.\<close>

definition demo_patched :: world where
  "demo_patched =
     \<lparr>tree =
        [([''r''], Dir),
         ([''r'', ''flutter''], Dir),
         ([''r'', ''flutter'', ''android''], Dir),
         ([''r'', ''flutter'', ''android'', ''a.kt''],
          File ''package com.carriez.flutter_hbb.pro''),
         ([''r'', ''flutter'', ''android'', ''b.txt''], File ''hello''),
         ([''r'', ''flutter'', ''android'', ''c.bin''], File ''com.carriez.flutter_hbb'')],
      written = [[''r'', ''flutter'', ''android'', ''a.kt'']]\<rparr>"



text \<open>A repository in which \<^verbatim>\<open>flutter/android\<close> is a regular file.\<close>

definition file_at_android_root :: world where
  "file_at_android_root =
     \<lparr>tree =
        [([''r''], Dir),
         ([''r'', ''flutter''], Dir),
         ([''r'', ''flutter'', ''android''], File ''not a directory'')],
      written = []\<rparr>"

text \<open>
  Whole-identifier substitution, as the specification words it: the text is read as runs of
  word characters (tokens) and single other characters; a token that is the word becomes
  the replacement, everything else stays.
\<close>

function replace_whole_tokens :: "string \<Rightarrow> string \<Rightarrow> string \<Rightarrow> string" where
  "replace_whole_tokens w r [] = []"
| "replace_whole_tokens w r (c # cs) =
     (if is_word c then
        (if takeWhile is_word (c # cs) = w then r else takeWhile is_word (c # cs)) @
        replace_whole_tokens w r (dropWhile is_word cs)
      else c # replace_whole_tokens w r cs)"
  by pat_completeness auto
termination
  by (relation "measure (\<lambda>(w, r, s). length s)")
    (auto simp: less_Suc_eq_le length_dropWhile_le)


section \<open>Facts about the tree\<close>

lemma map_of_put: "map_of (put p n t) q = (if q = p then Some n else map_of t q)"
  by (induction t) auto

lemma map_fst_put:
  "map fst (put p n t) = (if p \<in> fst ` set t then map fst t else map fst t @ [p])"
  by (induction t) auto

lemma is_file_nonempty: "is_file w p \<Longrightarrow> p \<noteq> []"
  by (auto simp: is_file_def node_at_def)



lemma read_text_file: "is_file w p \<Longrightarrow> read_text w p = Inr (text_of w p)"
  by (auto simp: read_text_def text_of_def is_file_def split: option.splits node.splits)


lemma node_at_overwrite:
  assumes "p \<noteq> []"
  shows "node_at (w\<lparr>tree := put p n (tree w), written := l\<rparr>) q =
     (if q = p then Some n else node_at w q)"
  using assms by (simp add: node_at_def map_of_put)


lemma iter_text_filesD:
  assumes "f \<in> set (iter_text_files w root)"
  shows "is_file w f" and "text_ext f" and "strict_prefix root f"
  using assms by (auto simp: iter_text_files_def rglob_def split: if_splits)

lemma scan_files_files:
  "\<forall>f\<in>set fs. is_file w f \<Longrightarrow>
   scan_files w needle fs = Inr (filter (\<lambda>f. contains needle (text_of w f)) fs)"
  by (induction fs) (simp_all add: read_text_file)

lemma scan_any_eq:
  "scan_any w root needle =
     Inr (filter (\<lambda>f. contains needle (text_of w f)) (iter_text_files w root))"
  unfolding scan_any_def by (rule scan_files_files) (simp add: iter_text_filesD)

lemma first_failure_None: "first_failure cs = None \<Longrightarrow> c \<in> set cs \<Longrightarrow> c = Inr ()"
  by (induction cs) (auto split: sum.splits)

lemma check_old_package_eq:
  "check_old_package repo cfg w =
     (let hits = filter (\<lambda>f. contains (old_package cfg) (text_of w f))
                   (iter_text_files w (android_root repo))
      in if hits \<noteq> [] then Inl (OldPackageRemains (take 50 hits)) else Inr ())"
  by (simp add: check_old_package_def scan_any_eq Let_def)

lemma validate_None_old_package:
  assumes "validate repo cfg w = None"
  shows "\<forall>f\<in>set (iter_text_files w (android_root repo)).
           \<not> contains (old_package cfg) (text_of w f)"
proof -
  have "check_old_package repo cfg w = Inr ()"
    by (rule first_failure_None [OF assms [unfolded validate_def]]) simp
  then show ?thesis
    by (auto simp: check_old_package_eq Let_def filter_empty_conv split: if_splits)
qed

lemma validate_Some_old_package:
  assumes "f \<in> set (iter_text_files w (android_root repo))"
    and "contains (old_package cfg) (text_of w f)"
  shows "\<exists>e. validate repo cfg w = Some e"
proof (cases "validate repo cfg w")
  case None
  from validate_None_old_package [OF None] assms show ?thesis by blast
next
  case (Some e)
  then show ?thesis by blast
qed

text \<open>Writing the report, outside \<^verbatim>\<open>flutter/android\<close>, leaves the scanned files alone.\<close>

lemma report_path_outside:
  "\<not> strict_prefix (android_root repo) (report_path repo)"
  "report_path repo \<noteq> android_root repo" "report_path repo \<noteq> []"
  by (simp_all add: android_root_def report_path_def strict_prefix_def)

lemma write_text_result:
  assumes "write_text p s w = Inr w'"
  shows "w' = w\<lparr>tree := put p (File s) (tree w), written := written w @ [p]\<rparr>"
  using assms by (auto simp: write_text_def Let_def split: option.splits node.splits)

lemma write_outside_iter:
  assumes "write_text p s w = Inr w'" and "\<not> strict_prefix root p" and "p \<noteq> root" and "p \<noteq> []"
  shows "iter_text_files w' root = iter_text_files w root"
    and "f \<in> set (iter_text_files w root) \<Longrightarrow> text_of w' f = text_of w f"
proof -
  note w' = write_text_result [OF assms(1)]
  have node: "node_at w' q = (if q = p then Some (File s) else node_at w q)" for q
    using assms(4) by (simp add: w' node_at_overwrite)
  have dir: "is_dir w' root = is_dir w root" using assms(3) by (simp add: is_dir_def node)
  have paths: "filter (strict_prefix root) (map fst (tree w')) =
               filter (strict_prefix root) (map fst (tree w))"
    using assms(2) by (simp add: w' map_fst_put)
  have glob: "rglob w' root = rglob w root" by (simp add: rglob_def dir paths)
  have isf: "is_file w' q = is_file w q" if "q \<in> set (rglob w root)" for q
  proof -
    from that assms(2) have "q \<noteq> p" by (auto simp: rglob_def split: if_splits)
    then show ?thesis by (simp add: is_file_def node)
  qed
  show "iter_text_files w' root = iter_text_files w root"
    unfolding iter_text_files_def glob by (rule filter_cong) (simp_all add: isf)
  show "text_of w' f = text_of w f" if "f \<in> set (iter_text_files w root)"
  proof -
    from iter_text_filesD(3) [OF that] assms(2) have "f \<noteq> p" by auto
    then show ?thesis by (simp add: text_of_def node)
  qed
qed




section \<open>What the run writes\<close>

lemma mkdirs_written: "mkdirs base p w = Inr w' \<Longrightarrow> written w' = written w"
proof (induction p arbitrary: base w)
  case Nil
  then show ?case by simp
next
  case (Cons c cs)
  show ?case
  proof (cases "node_at w (base @ [c])")
    case None
    with Cons.prems have "mkdirs (base @ [c]) cs (w\<lparr>tree := tree w @ [(base @ [c], Dir)]\<rparr>) = Inr w'"
      by simp
    from Cons.IH [OF this] show ?thesis by simp
  next
    case (Some n)
    with Cons.prems Cons.IH show ?thesis by (cases n) auto
  qed
qed

lemma copy2_written: "copy2 faulty item dst w = Inr w' \<Longrightarrow> written w' = written w"
  by (auto simp: copy2_def Let_def split: option.splits node.splits if_splits)

lemma copy_files_written:
  "copy_files faulty old_dir new_dir items w = (r, w') \<Longrightarrow> written w' = written w"
proof (induction items arbitrary: w)
  case Nil
  then show ?case by simp
next
  case (Cons item items)
  show ?case
  proof (cases "is_file w item")
    case False
    with Cons show ?thesis by simp
  next
    case True
    show ?thesis
    proof (cases "mkdir_parents (butlast (new_dir @ drop (length old_dir) item)) w")
      case (Inl e)
      with True Cons.prems show ?thesis by (simp add: Let_def)
    next
      case (Inr w1)
      then have w1: "written w1 = written w" by (simp add: mkdir_parents_def mkdirs_written)
      show ?thesis
      proof (cases "copy2 faulty item (new_dir @ drop (length old_dir) item) w1")
        case (Inl e)
        with True Inr Cons.prems w1 show ?thesis by (auto simp: Let_def)
      next
        case c: (Inr w2)
        with True Inr Cons.prems have "copy_files faulty old_dir new_dir items w2 = (r, w')"
          by (simp add: Let_def)
        from Cons.IH [OF this] copy2_written [OF c] w1 show ?thesis by simp
      qed
    qed
  qed
qed

lemma move_written: "move src dst w = Inr w' \<Longrightarrow> written w' = written w"
  by (auto simp: move_def Let_def split: option.splits node.splits if_splits)

lemma rmtree_written: "written (rmtree d w) = written w"
  by (simp add: rmtree_def)

lemma move_kotlin_dir_written:
  assumes "move_kotlin_dir repo cfg faulty report_lines w = (r, w')"
  shows "written w' = written w"
proof -
  define old_dir where "old_dir = package_dir (kotlin_root repo) (old_package cfg)"
  define new_dir where "new_dir = package_dir (kotlin_root repo) (new_package cfg)"
  note defs = move_kotlin_dir_def Let_def old_dir_def [symmetric] new_dir_def [symmetric]
  consider "\<not> path_exists w (kotlin_root repo)"
    | "path_exists w (kotlin_root repo)" "\<not> path_exists w old_dir"
    | "path_exists w (kotlin_root repo)" "path_exists w old_dir"
    by blast
  then show ?thesis
  proof cases
    case 1
    with assms show ?thesis by (simp add: defs)
  next
    case 2
    with assms show ?thesis by (simp add: defs)
  next
    case 3
    show ?thesis
    proof (cases "mkdir_parents (butlast new_dir) w")
      case (Inl e)
      with 3 assms show ?thesis by (simp add: defs)
    next
      case (Inr w1)
      then have w1: "written w1 = written w" by (simp add: mkdir_parents_def mkdirs_written)
      show ?thesis
      proof (cases "path_exists w1 new_dir")
        case True
        obtain r2 w2 where c: "copy_files faulty old_dir new_dir (rglob w1 old_dir) w1 = (r2, w2)"
          by force
        from copy_files_written [OF c] w1 have w2: "written w2 = written w" by simp
        from 3 Inr True c assms have "w' = w2 \<or> w' = rmtree old_dir w2"
          by (cases r2) (auto simp: defs)
        with w2 show ?thesis by (auto simp: rmtree_written)
      next
        case False
        show ?thesis
        proof (cases "move old_dir new_dir w1")
          case (Inl e)
          with 3 Inr False assms w1 show ?thesis by (simp add: defs)
        next
          case m: (Inr w2)
          with 3 Inr False assms have "w' = w2" by (simp add: defs)
          with move_written [OF m] w1 show ?thesis by simp
        qed
      qed
    qed
  qed
qed

lemma write_text_written:
  "write_text p s w = Inr w' \<Longrightarrow> written w' = written w @ [p]"
  by (auto simp: write_text_def Let_def split: option.splits node.splits)

lemma replace_in_file_written:
  "replace_in_file p rules w = (r, w') \<Longrightarrow> set (written w') \<subseteq> insert p (set (written w))"
  by (auto simp: replace_in_file_def split: sum.splits if_splits dest: write_text_written)

lemma rewrite_files_written:
  "rewrite_files repo rules fs scanned changed w = (r, w') \<Longrightarrow>
   set (written w') \<subseteq> set (written w) \<union> set fs"
proof (induction fs arbitrary: scanned changed w)
  case Nil
  then show ?case by auto
next
  case (Cons f fs)
  obtain r1 w1 where step: "replace_in_file f rules w = (r1, w1)" by force
  note sub1 = replace_in_file_written [OF step]
  show ?case
  proof (cases r1)
    case (Inl e)
    with step Cons.prems sub1 show ?thesis by auto
  next
    case (Inr b)
    with step Cons.prems have
      "rewrite_files repo rules fs (Suc scanned)
         (if b then changed @ [drop (length repo) f] else changed) w1 = (r, w')"
      by simp
    from Cons.IH [OF this] sub1 show ?thesis by auto
  qed
qed

lemma patch_written:
  assumes "patch repo cfg move_dir faulty w = (r, w2)"
  shows "set (written w2) \<subseteq> set (written w) \<union> set (iter_text_files w (android_root repo))"
proof (cases "path_exists w (android_root repo)")
  case False
  with assms show ?thesis by (auto simp: patch_def)
next
  case True
  obtain r1 w1 where
    rw: "rewrite_files repo (build_rules cfg) (iter_text_files w (android_root repo)) 0 [] w =
           (r1, w1)"
    by force
  note sub1 = rewrite_files_written [OF rw]
  show ?thesis
  proof (cases r1)
    case (Inl e)
    with True rw assms sub1 show ?thesis by (auto simp: patch_def)
  next
    case (Inr x)
    obtain scanned changed_files where x: "x = (scanned, changed_files)" by force
    show ?thesis
    proof (cases move_dir)
      case False
      with True rw assms sub1 Inr x show ?thesis by (auto simp: patch_def)
    next
      case mv: True
      obtain r3 w3 where m: "move_kotlin_dir repo cfg faulty [] w1 = (r3, w3)" by force
      from move_kotlin_dir_written [OF m] have "written w3 = written w1" .
      moreover from True rw assms Inr x mv m have "w2 = w3"
        by (auto simp: patch_def split: sum.splits)
      ultimately show ?thesis using sub1 by auto
    qed
  qed
qed

lemma report_path_not_scanned: "report_path repo \<notin> set (iter_text_files w (android_root repo))"
proof
  assume "report_path repo \<in> set (iter_text_files w (android_root repo))"
  from iter_text_filesD(3) [OF this] show False
    by (simp add: android_root_def report_path_def strict_prefix_def)
qed


section \<open>Files outside the allow-list\<close>

lemma text_ext_last: "p \<noteq> [] \<Longrightarrow> text_ext p = text_ext [last p]"
  by (simp add: text_ext_def suffix_of_def)

lemma text_ext_gradle: "text_ext (gradle repo)"
proof -
  have "text_ext [''build.gradle'']" by code_simp
  then show ?thesis using text_ext_last [of "gradle repo"] by (simp add: gradle_def)
qed

lemma text_ext_manifest: "text_ext (manifest repo)"
proof -
  have "text_ext [''AndroidManifest.xml'']" by code_simp
  then show ?thesis using text_ext_last [of "manifest repo"] by (simp add: manifest_def)
qed

lemma replace_in_file_node:
  assumes "replace_in_file f rules w = (r, w')" and "q \<noteq> f"
  shows "node_at w' q = node_at w q"
proof (cases "is_file w f")
  case False
  then have "\<exists>e. read_text w f = Inl e"
    by (auto simp: read_text_def is_file_def split: option.splits node.splits)
  with assms show ?thesis by (auto simp: replace_in_file_def)
next
  case True
  note ne = is_file_nonempty [OF True]
  from assms(1) have "w' = w \<or> (\<exists>dst. write_text f dst w = Inr w')"
    by (auto simp: replace_in_file_def split: sum.splits if_splits)
  then show ?thesis
  proof
    assume "w' = w" then show ?thesis by simp
  next
    assume "\<exists>dst. write_text f dst w = Inr w'"
    then obtain dst where "write_text f dst w = Inr w'" by blast
    from write_text_result [OF this] ne assms(2) show ?thesis
      by (simp add: node_at_overwrite)
  qed
qed

lemma rewrite_files_node:
  "rewrite_files repo rules fs scanned changed w = (r, w') \<Longrightarrow> q \<notin> set fs \<Longrightarrow>
   node_at w' q = node_at w q"
proof (induction fs arbitrary: scanned changed w)
  case Nil
  then show ?case by simp
next
  case (Cons f fs)
  obtain r1 w1 where step: "replace_in_file f rules w = (r1, w1)" by force
  from Cons.prems(2) have "q \<noteq> f" by auto
  note n1 = replace_in_file_node [OF step this]
  show ?case
  proof (cases r1)
    case (Inl e)
    with step Cons.prems n1 show ?thesis by auto
  next
    case (Inr b)
    with step Cons.prems have
      "rewrite_files repo rules fs (Suc scanned)
         (if b then changed @ [drop (length repo) f] else changed) w1 = (r, w')"
      by simp
    from Cons.IH [OF this] Cons.prems(2) n1 show ?thesis by simp
  qed
qed

text \<open>Changing what a file outside the allow-list holds changes nothing the validator sees.\<close>

lemma validate_ignores:
  assumes p: "node_at w p = Some (File c)" and ext: "\<not> text_ext p"
  shows "validate repo cfg (w\<lparr>tree := put p (File c') (tree w)\<rparr>) = validate repo cfg w"
proof -
  let ?w = "w\<lparr>tree := put p (File c') (tree w)\<rparr>"
  from p have ne: "p \<noteq> []" by (auto simp: node_at_def)
  have node: "node_at ?w q = (if q = p then Some (File c') else node_at w q)" for q
    using ne by (simp add: node_at_def map_of_put)
  have ex: "path_exists ?w q = path_exists w q" for q
    using p by (simp add: path_exists_def node)
  have isf: "is_file ?w q = is_file w q" for q
    using p by (simp add: is_file_def node)
  have isd: "is_dir ?w q = is_dir w q" for q
    using p by (simp add: is_dir_def node)
  from p ne have "p \<in> fst ` set (tree w)"
    by (auto simp: node_at_def dest!: map_of_SomeD intro: rev_image_eqI)
  then have paths: "map fst (put p (File c') (tree w)) = map fst (tree w)"
    by (simp add: map_fst_put)
  have glob: "rglob ?w root = rglob w root" for root by (simp add: rglob_def isd paths)
  have iter: "iter_text_files ?w root = iter_text_files w root" for root
    by (simp add: iter_text_files_def glob isf)
  have rd: "read_text ?w q = read_text w q" if "q \<noteq> p" for q
    using that by (simp add: read_text_def node)
  have same_text: "text_of ?w f = text_of w f" if "f \<in> set (iter_text_files w root)" for f root
  proof -
    from iter_text_filesD(2) [OF that] ext have "f \<noteq> p" by auto
    then show ?thesis by (simp add: text_of_def node)
  qed
  have scan: "scan_any ?w root needle = scan_any w root needle" for root needle
    unfolding scan_any_eq iter by (simp cong: filter_cong add: same_text)
  have g: "gradle repo \<noteq> p" and m: "manifest repo \<noteq> p"
    using ext text_ext_gradle text_ext_manifest by auto
  have mc: "must_contain ?w (gradle repo) n = must_contain w (gradle repo) n"
    "must_not_contain ?w (gradle repo) n = must_not_contain w (gradle repo) n"
    "must_contain ?w (manifest repo) n = must_contain w (manifest repo) n" for n
    by (simp_all add: must_contain_def must_not_contain_def rd g m)
  show ?thesis
    unfolding validate_def check_old_package_def check_two_scans_def ex mc scan ..
qed


section \<open>Facts about matching and substitution\<close>







lemma subn_None:
  "mt r prev adv s = None \<Longrightarrow>
   subn r t prev adv s = (case s of [] \<Rightarrow> [] | c # cs \<Rightarrow> c # subn r t (Some c) False cs)"
  by (subst subn.simps) simp

lemma subn_Some:
  "mt r prev adv s = Some ps \<Longrightarrow> concat ps \<noteq> [] \<Longrightarrow>
   subn r t prev adv s =
     expand t (concat ps) (groups r ps None) @
     subn r t (Some (last (concat ps))) False (drop (length (concat ps)) s)"
  by (subst subn.simps) (simp del: concat_eq_Nil_conv)








section \<open>The two native names under the rules\<close>















section \<open>The rule for a whole word\<close>

lemma groups_word: "groups (safe_word_replace w) [[], w, []] None = []"
  by (simp add: safe_word_replace_def)

lemma mt_word:
  "mt (safe_word_replace w) prev need s =
     (if boundary prev s \<and> prefix w s \<and> boundary (last_char prev w) (drop (length w) s) \<and>
         \<not> (need \<and> w = [])
      then Some [[], w, []] else None)"
  unfolding safe_word_replace_def
  apply (simp only: mt.simps Let_def elem.case)
  apply (cases "boundary prev s"; cases "prefix w s"; cases need; cases "w = []";
      simp add: last_char_def)
  done

text \<open>Inside a run of word characters nothing matches.\<close>

lemma subn_word_inside:
  assumes "word_at prev" and "\<forall>c\<in>set run. is_word c"
  shows "subn (safe_word_replace w) t prev False (run @ rest) =
         run @ subn (safe_word_replace w) t (last_char prev run) False rest"
  using assms
proof (induction run arbitrary: prev)
  case Nil
  then show ?case by (simp add: last_char_def)
next
  case (Cons c run)
  have "\<not> boundary prev ((c # run) @ rest)"
    using Cons.prems by (simp add: boundary_def word_at_def)
  then have "mt (safe_word_replace w) prev False ((c # run) @ rest) = None"
    by (simp add: mt_word)
  then have "subn (safe_word_replace w) t prev False ((c # run) @ rest) =
      c # subn (safe_word_replace w) t (Some c) False (run @ rest)"
    by (simp add: subn_None)
  also have "subn (safe_word_replace w) t (Some c) False (run @ rest) =
      run @ subn (safe_word_replace w) t (last_char (Some c) run) False rest"
    using Cons.prems by (intro Cons.IH) (simp_all add: word_at_def)
  finally show ?case by (simp add: last_char_def)
qed

lemma prefix_takeWhile:
  assumes "prefix w s" and "\<forall>c\<in>set w. P c"
  shows "prefix w (takeWhile P s)"
proof -
  from assms(1) obtain r where "s = w @ r" by (auto simp: prefix_def)
  with assms(2) show ?thesis by (simp add: takeWhile_append2)
qed

lemma subn_word:
  assumes w: "w \<noteq> []" "\<forall>c\<in>set w. is_word c"
    and start: "\<not> word_at prev \<or> s = [] \<or> \<not> is_word (hd s)"
  shows "subn (safe_word_replace w) t prev False s = replace_whole_tokens w (expand t w []) s"
  using start
proof (induction "length s" arbitrary: s prev rule: less_induct)
  case less
  let ?r = "safe_word_replace w"
  show ?case
  proof (cases s)
    case Nil
    with w show ?thesis by (simp add: subn_None mt_word)
  next
    case (Cons c cs)
    show ?thesis
    proof (cases "is_word c")
      case False
      from w have "is_word (hd w)" by (cases w) auto
      with False w have "\<not> prefix w (c # cs)" by (cases w) auto
      then have "mt ?r prev False s = None" by (simp add: mt_word Cons)
      then have "subn ?r t prev False s = c # subn ?r t (Some c) False cs"
        by (simp add: subn_None Cons)
      also have "subn ?r t (Some c) False cs = replace_whole_tokens w (expand t w []) cs"
        using False by (intro less.hyps) (simp_all add: Cons word_at_def)
      finally show ?thesis using False by (simp add: Cons)
    next
      case True
      define run where "run = takeWhile is_word (c # cs)"
      define rest where "rest = dropWhile is_word (c # cs)"
      have s: "s = run @ rest" by (simp add: run_def rest_def Cons del: takeWhile.simps dropWhile.simps)
      have run: "\<forall>x\<in>set run. is_word x" unfolding run_def by (auto dest: set_takeWhileD)
      have run_ne: "run \<noteq> []" and run_c: "run = c # takeWhile is_word cs"
        using True by (simp_all add: run_def)
      have rest_hd: "rest = [] \<or> \<not> is_word (hd rest)"
        unfolding rest_def by (metis hd_dropWhile)
      have rest_eq: "rest = dropWhile is_word cs" using True by (simp add: rest_def)
      have rest_len: "length rest < length s" using run_ne by (simp add: s)
      from less.prems True have prev: "\<not> word_at prev" by (simp add: Cons)
      then have b0: "boundary prev s" using True by (simp add: boundary_def Cons word_at_def)
      have tail: "subn ?r t pv False rest = replace_whole_tokens w (expand t w []) rest" for pv
        using rest_hd rest_len by (intro less.hyps) auto
      have unfold: "replace_whole_tokens w (expand t w []) s =
          (if run = w then expand t w [] else run) @ replace_whole_tokens w (expand t w []) rest"
        using True by (simp add: Cons run_c rest_eq)
      show ?thesis
      proof (cases "run = w")
        case same: True
        have "prefix w s" by (simp add: s same)
        moreover have "drop (length w) s = rest" by (simp add: s same)
        moreover have "boundary (last_char prev w) rest"
          using rest_hd w by (cases rest) (auto simp: boundary_def last_char_def word_at_def)
        ultimately have m: "mt ?r prev False s = Some [[], w, []]"
          using b0 by (simp add: mt_word)
        have "subn ?r t prev False s = expand t w [] @ subn ?r t (Some (last w)) False rest"
          using subn_Some [OF m, of t] w(1) \<open>drop (length w) s = rest\<close>
          by (simp add: groups_word)
        with tail unfold same show ?thesis by simp
      next
        case diff: False
        have "mt ?r prev False s = None"
        proof (cases "prefix w s")
          case False
          then show ?thesis by (simp add: mt_word)
        next
          case pre: True
          from prefix_takeWhile [OF this w(2)] have pw: "prefix w run" by (simp add: run_def Cons)
          then obtain ys where ys: "run = w @ ys" by (auto simp: prefix_def)
          with diff obtain x xs where x: "run = w @ x # xs" by (cases ys) auto
          with run have "is_word x" by simp
          moreover have "drop (length w) s = x # xs @ rest" by (simp add: s x)
          ultimately have "\<not> boundary (last_char prev w) (drop (length w) s)"
            using w by (simp add: boundary_def last_char_def word_at_def)
          then show ?thesis by (simp add: mt_word)
        qed
        then have "subn ?r t prev False s = c # subn ?r t (Some c) False (takeWhile is_word cs @ rest)"
          by (simp add: subn_None Cons rest_eq)
        also have "subn ?r t (Some c) False (takeWhile is_word cs @ rest) =
            takeWhile is_word cs @ subn ?r t (last_char (Some c) (takeWhile is_word cs)) False rest"
          using True by (intro subn_word_inside) (auto simp: word_at_def dest: set_takeWhileD)
        finally have "subn ?r t prev False s = run @ replace_whole_tokens w (expand t w []) rest"
          by (simp add: tail run_c)
        with unfold diff show ?thesis by simp
      qed
    qed
  qed
qed

lemma replace_whole_tokens_append:
  assumes "a = [] \<or> \<not> is_word (last a)"
  shows "replace_whole_tokens w r (a @ s) = replace_whole_tokens w r a @ replace_whole_tokens w r s"
  using assms
proof (induction w r a rule: replace_whole_tokens.induct)
  case (1 w r)
  then show ?case by simp
next
  case (2 w r c cs)
  show ?case
  proof (cases "is_word c")
    case False
    from 2(3) have "cs = [] \<or> \<not> is_word (last cs)" by (auto split: if_splits)
    from 2(2) [OF False this] False show ?thesis by simp
  next
    case True
    from 2(3) True have cs: "cs \<noteq> []" and lst: "\<not> is_word (last cs)" by (auto split: if_splits)
    then have ex: "\<exists>x\<in>set cs. \<not> is_word x" using last_in_set by blast
    then have tw: "takeWhile is_word (cs @ s) = takeWhile is_word cs"
      and dw: "dropWhile is_word (cs @ s) = dropWhile is_word cs @ s"
      by (auto simp: takeWhile_append1 dropWhile_append1)
    from ex have ne: "dropWhile is_word cs \<noteq> []" by (auto simp: dropWhile_eq_Nil_conv)
    have "last (dropWhile is_word cs) = last cs"
      using ne by (metis last_appendR takeWhile_dropWhile_id)
    with lst ne have "dropWhile is_word cs = [] \<or> \<not> is_word (last (dropWhile is_word cs))"
      by simp
    from 2(1) [OF True this] True show ?thesis by (simp add: tw dw)
  qed
qed

lemma replace_whole_tokens_token:
  assumes "tok \<noteq> []" and "\<forall>c\<in>set tok. is_word c" and "b = [] \<or> \<not> is_word (hd b)"
  shows "replace_whole_tokens w r (tok @ b) =
         (if tok = w then r else tok) @ replace_whole_tokens w r b"
proof -
  from assms(1) obtain c tk where tok: "tok = c # tk" by (cases tok) auto
  have tw: "takeWhile is_word (tk @ b) = tk"
    using assms(2,3) by (cases b) (auto simp: tok takeWhile_append2)
  have dw: "dropWhile is_word (tk @ b) = b"
    using assms(2,3) by (cases b) (auto simp: tok dropWhile_append2)
  from assms(2) have "is_word c" by (simp add: tok)
  then show ?thesis by (simp add: tok tw dw)
qed

lemma re_sub_word:
  assumes "w \<noteq> []" and "\<forall>c\<in>set w. is_word c" and "parse_template 0 repl = Inr t"
  shows "re_sub (safe_word_replace w) repl s = Inr (replace_whole_tokens w (expand t w []) s)"
  using assms subn_word [OF assms(1,2), of None s t]
  by (simp add: re_sub_def ngroups_def safe_word_replace_def word_at_def)

section \<open>The rule for a string field\<close>




























section \<open>Properties of the run\<close>

text \<open>
  C1. After a run with exit status 0, no text file under \<^verbatim>\<open>flutter/android\<close> holds the old
  package as a substring; and when, after the rules and the optional move, a scanned file
  still holds it, the exit status is not 0.
\<close>

theorem successful_run_leaves_no_old_package:
  assumes "main repo cfg move_dir faulty w = (out, w')"
  shows "(exit_status out = 0 \<longrightarrow>
            (\<forall>f\<in>set (iter_text_files w' (android_root repo)).
               read_text w' f = Inr (text_of w' f) \<and>
               \<not> contains (old_package cfg) (text_of w' f))) \<and>
         (\<forall>r w2. patch repo cfg move_dir faulty w = (Inr r, w2) \<longrightarrow>
            (\<exists>f\<in>set (iter_text_files w2 (android_root repo)).
               contains (old_package cfg) (text_of w2 f)) \<longrightarrow>
            exit_status out \<noteq> 0)"
proof (intro conjI allI impI)
  assume ok: "exit_status out = 0"
  from ok assms obtain scanned changed_files report_lines w2 where
    p: "patch repo cfg move_dir faulty w = (Inr (scanned, changed_files, report_lines), w2)" and
    v: "validate repo cfg w2 = None" and
    wr: "write_report repo cfg changed_files report_lines w2 = Inr w'"
    by (auto simp: main_def exit_status_def split: prod.splits sum.splits option.splits)
  note out = write_outside_iter [OF wr [unfolded write_report_def] report_path_outside]
  show "\<forall>f\<in>set (iter_text_files w' (android_root repo)).
          read_text w' f = Inr (text_of w' f) \<and> \<not> contains (old_package cfg) (text_of w' f)"
  proof
    fix f assume f: "f \<in> set (iter_text_files w' (android_root repo))"
    then have f2: "f \<in> set (iter_text_files w2 (android_root repo))" by (simp add: out(1))
    from validate_None_old_package [OF v] f2 out(2) [OF f2]
    have "\<not> contains (old_package cfg) (text_of w' f)" by simp
    with read_text_file [OF iter_text_filesD(1) [OF f]]
    show "read_text w' f = Inr (text_of w' f) \<and> \<not> contains (old_package cfg) (text_of w' f)"
      by simp
  qed
next
  fix r w2
  assume p: "patch repo cfg move_dir faulty w = (Inr r, w2)"
    and ex: "\<exists>f\<in>set (iter_text_files w2 (android_root repo)).
               contains (old_package cfg) (text_of w2 f)"
  from ex validate_Some_old_package obtain e where "validate repo cfg w2 = Some e" by blast
  with p assms have "out = Failure e" by (auto simp: main_def split: prod.splits)
  then show "exit_status out \<noteq> 0" by (simp add: exit_status_def)
qed

theorem successful_run_leaves_no_old_package_witness:
  "exit_status (fst (main [''r''] default_cfg False (\<lambda>p. False) demo_world)) = 0 \<and>
   iter_text_files (snd (main [''r''] default_cfg False (\<lambda>p. False) demo_world))
     (android_root [''r'']) =
     [[''r'', ''flutter'', ''android'', ''a.kt''], [''r'', ''flutter'', ''android'', ''b.txt'']] \<and>
   list_all (\<lambda>f. \<not> contains (old_package default_cfg)
               (text_of (snd (main [''r''] default_cfg False (\<lambda>p. False) demo_world)) f))
     (iter_text_files (snd (main [''r''] default_cfg False (\<lambda>p. False) demo_world))
        (android_root [''r'']))"
proof -
  let ?m = "main [''r''] default_cfg False (\<lambda>p. False) demo_world"
  have st: "exit_status (fst ?m) = 0" by code_simp
  have fs: "iter_text_files (snd ?m) (android_root [''r'']) =
     [[''r'', ''flutter'', ''android'', ''a.kt''], [''r'', ''flutter'', ''android'', ''b.txt'']]"
    by code_simp
  have m: "?m = (fst ?m, snd ?m)" by simp
  from successful_run_leaves_no_old_package [OF m] st
  have "\<forall>f\<in>set (iter_text_files (snd ?m) (android_root [''r''])).
          \<not> contains (old_package default_cfg) (text_of (snd ?m) f)"
    by blast
  then have "list_all (\<lambda>f. \<not> contains (old_package default_cfg) (text_of (snd ?m) f))
     (iter_text_files (snd ?m) (android_root [''r'']))"
    by (simp only: list_all_iff)
  with st fs show ?thesis by blast
qed





text \<open>
  C3. When, after the rules and the optional move, a scanned file still holds the old
  package, the run fails with a status that is not 0, and it ends in the world the
  validator saw: \<^verbatim>\<open>write_text\<close> has not been called on the report.
\<close>

theorem residual_old_package_aborts_before_report:
  assumes "patch repo cfg move_dir faulty w = (Inr r, w2)"
    and "f \<in> set (iter_text_files w2 (android_root repo))"
    and "contains (old_package cfg) (text_of w2 f)"
    and "report_path repo \<notin> set (written w)"
  shows "\<exists>e. main repo cfg move_dir faulty w = (Failure e, w2) \<and>
             exit_status (Failure e) \<noteq> 0 \<and>
             report_path repo \<notin> set (written w2)"
proof -
  from validate_Some_old_package [OF assms(2,3)] obtain e where
    "validate repo cfg w2 = Some e" by blast
  with assms(1) have "main repo cfg move_dir faulty w = (Failure e, w2)"
    by (auto simp: main_def split: prod.splits)
  moreover have "report_path repo \<notin> set (written w2)"
    using patch_written [OF assms(1)] assms(4) report_path_not_scanned by blast
  ultimately show ?thesis by (simp add: exit_status_def)
qed

theorem residual_old_package_aborts_before_report_witness:
  "patch [''r''] pro_cfg False (\<lambda>p. False) demo_world =
     (Inr (2, [[''flutter'', ''android'', ''a.kt'']], []), demo_patched) \<and>
   contains (old_package pro_cfg) (text_of demo_patched [''r'', ''flutter'', ''android'', ''a.kt'']) \<and>
   (\<exists>e. main [''r''] pro_cfg False (\<lambda>p. False) demo_world = (Failure e, demo_patched) \<and>
        exit_status (Failure e) \<noteq> 0 \<and>
        report_path [''r''] \<notin> set (written demo_patched))"
proof -
  have p: "patch [''r''] pro_cfg False (\<lambda>p. False) demo_world =
     (Inr (2, [[''flutter'', ''android'', ''a.kt'']], []), demo_patched)"
    by code_simp
  have f: "[''r'', ''flutter'', ''android'', ''a.kt''] \<in>
     set (iter_text_files demo_patched (android_root [''r'']))"
    by code_simp
  have c: "contains (old_package pro_cfg)
     (text_of demo_patched [''r'', ''flutter'', ''android'', ''a.kt''])"
    by code_simp
  have r: "report_path [''r''] \<notin> set (written demo_world)" by code_simp
  from residual_old_package_aborts_before_report [OF p f c r] p c show ?thesis by blast
qed

text \<open>
  C5. The rewriter and every scan of the validator go through \<^verbatim>\<open>iter_text_files\<close>, which
  yields only files whose suffix, in lower case, is one of the eight of the allow-list. A
  file with another suffix is not among them; the rewriting loop leaves its node as it was;
  and the validator gives the same verdict whatever the file holds.
\<close>

theorem only_allow_listed_files_are_processed:
  "(\<forall>f\<in>set (iter_text_files w root).
      lower (suffix_of f) \<in>
        {''.kt'', ''.java'', ''.xml'', ''.gradle'', ''.properties'', ''.txt'', ''.md'', ''.dart''}) \<and>
   (\<not> text_ext p \<longrightarrow>
      p \<notin> set (iter_text_files w root) \<and>
      (\<forall>r w'. rewrite_files repo rules (iter_text_files w root) scanned changed w = (r, w') \<longrightarrow>
         node_at w' p = node_at w p) \<and>
      (\<forall>c c'. node_at w p = Some (File c) \<longrightarrow>
         validate repo cfg (w\<lparr>tree := put p (File c') (tree w)\<rparr>) = validate repo cfg w))"
proof (intro conjI ballI impI allI)
  fix f assume "f \<in> set (iter_text_files w root)"
  from iter_text_filesD(2) [OF this]
  show "lower (suffix_of f) \<in>
        {''.kt'', ''.java'', ''.xml'', ''.gradle'', ''.properties'', ''.txt'', ''.md'', ''.dart''}"
    by (simp add: text_ext_def TEXT_EXTS_def)
next
  assume ext: "\<not> text_ext p"
  then show notin: "p \<notin> set (iter_text_files w root)" using iter_text_filesD(2) by blast
  fix r w'
  assume "rewrite_files repo rules (iter_text_files w root) scanned changed w = (r, w')"
  from rewrite_files_node [OF this notin] show "node_at w' p = node_at w p" .
next
  fix c c'
  assume "\<not> text_ext p" and "node_at w p = Some (File c)"
  from validate_ignores [OF this(2,1)]
  show "validate repo cfg (w\<lparr>tree := put p (File c') (tree w)\<rparr>) = validate repo cfg w" .
qed

theorem only_allow_listed_files_are_processed_witness:
  "\<not> text_ext [''r'', ''flutter'', ''android'', ''c.bin''] \<and>
   node_at demo_world [''r'', ''flutter'', ''android'', ''c.bin''] =
     Some (File ''com.carriez.flutter_hbb'') \<and>
   [''r'', ''flutter'', ''android'', ''c.bin''] \<notin>
     set (iter_text_files demo_world (android_root [''r''])) \<and>
   validate [''r''] default_cfg
     (demo_world\<lparr>tree := put [''r'', ''flutter'', ''android'', ''c.bin''] (File ''harmless'')
        (tree demo_world)\<rparr>) = validate [''r''] default_cfg demo_world \<and>
   exit_status (fst (main [''r''] default_cfg False (\<lambda>p. False) demo_world)) = 0 \<and>
   node_at (snd (main [''r''] default_cfg False (\<lambda>p. False) demo_world))
     [''r'', ''flutter'', ''android'', ''c.bin''] = Some (File ''com.carriez.flutter_hbb'')"
proof -
  let ?p = "[''r'', ''flutter'', ''android'', ''c.bin'']"
  have e: "\<not> text_ext ?p" by code_simp
  have n: "node_at demo_world ?p = Some (File ''com.carriez.flutter_hbb'')" by code_simp
  have st: "exit_status (fst (main [''r''] default_cfg False (\<lambda>p. False) demo_world)) = 0"
    by code_simp
  have fin: "node_at (snd (main [''r''] default_cfg False (\<lambda>p. False) demo_world)) ?p =
     Some (File ''com.carriez.flutter_hbb'')"
    by code_simp
  from only_allow_listed_files_are_processed
    [of demo_world "android_root [''r'']" ?p "[''r'']" "build_rules default_cfg" 0 "[]" default_cfg]
    e n st fin
  show ?thesis by blast
qed

text \<open>
  C6. The rule for the old service name is one of the rules, and when that name is an
  identifier the rule does what the specification says of whole tokens: it replaces the
  tokens that are the name and nothing else. In particular a longer identifier that only
  contains the name, standing as a token of the text, is still there after the rule, between
  the rewritten texts before and after it.
\<close>

theorem service_rule_replaces_whole_tokens_only:
  assumes "old_service cfg \<noteq> []" and "\<forall>c\<in>set (old_service cfg). is_word c"
    and "parse_template 0 (new_service cfg) = Inr t"
  shows "(safe_word_replace (old_service cfg), new_service cfg) \<in> set (build_rules cfg) \<and>
         re_sub (safe_word_replace (old_service cfg)) (new_service cfg) s =
           Inr (replace_whole_tokens (old_service cfg) (expand t (old_service cfg) []) s) \<and>
         (\<forall>a tok b.
            s = a @ tok @ b \<and> tok \<noteq> [] \<and> (\<forall>c\<in>set tok. is_word c) \<and>
            tok \<noteq> old_service cfg \<and>
            (a = [] \<or> \<not> is_word (last a)) \<and> (b = [] \<or> \<not> is_word (hd b)) \<longrightarrow>
            (\<exists>x y. re_sub (safe_word_replace (old_service cfg)) (new_service cfg) a = Inr x \<and>
                   re_sub (safe_word_replace (old_service cfg)) (new_service cfg) b = Inr y \<and>
                   re_sub (safe_word_replace (old_service cfg)) (new_service cfg) s =
                     Inr (x @ tok @ y)))"
proof (intro conjI allI impI)
  show "(safe_word_replace (old_service cfg), new_service cfg) \<in> set (build_rules cfg)"
    by (simp add: build_rules_def)
  note sub = re_sub_word [OF assms]
  show "re_sub (safe_word_replace (old_service cfg)) (new_service cfg) s =
      Inr (replace_whole_tokens (old_service cfg) (expand t (old_service cfg) []) s)"
    by (rule sub)
  fix a tok b
  assume h: "s = a @ tok @ b \<and> tok \<noteq> [] \<and> (\<forall>c\<in>set tok. is_word c) \<and>
      tok \<noteq> old_service cfg \<and>
      (a = [] \<or> \<not> is_word (last a)) \<and> (b = [] \<or> \<not> is_word (hd b))"
  let ?f = "replace_whole_tokens (old_service cfg) (expand t (old_service cfg) [])"
  from h have "?f s = ?f a @ ?f (tok @ b)"
    by (simp add: replace_whole_tokens_append)
  also from h have "?f (tok @ b) = tok @ ?f b"
    by (simp add: replace_whole_tokens_token)
  finally have "?f s = ?f a @ tok @ ?f b" .
  then show "\<exists>x y. re_sub (safe_word_replace (old_service cfg)) (new_service cfg) a = Inr x \<and>
      re_sub (safe_word_replace (old_service cfg)) (new_service cfg) b = Inr y \<and>
      re_sub (safe_word_replace (old_service cfg)) (new_service cfg) s = Inr (x @ tok @ y)"
    by (simp add: sub)
qed

theorem service_rule_replaces_whole_tokens_only_witness:
  "re_sub (safe_word_replace (old_service default_cfg)) (new_service default_cfg)
     ''class InputServiceImpl : InputService()'' =
     Inr (''class '' @ ''InputServiceImpl'' @ '' : ToddService()'') \<and>
   re_sub (safe_word_replace (old_service default_cfg)) (new_service default_cfg)
     ''class InputServiceImpl : InputService()'' =
     Inr (replace_whole_tokens ''InputService'' ''ToddService''
            ''class InputServiceImpl : InputService()'')"
proof -
  let ?s = "''class InputServiceImpl : InputService()''"
  let ?t = "map TChar ''ToddService''"
  have ne: "old_service default_cfg \<noteq> []" by (simp add: default_cfg_def)
  have wd: "\<forall>c\<in>set (old_service default_cfg). is_word c" by code_simp
  have tp: "parse_template 0 (new_service default_cfg) = Inr ?t" by code_simp
  note th = service_rule_replaces_whole_tokens_only [OF ne wd tp, of ?s]
  have ex: "expand ?t ''InputService'' [] = ''ToddService''" by code_simp
  have os: "old_service default_cfg = ''InputService''" by (simp add: default_cfg_def)
  have split: "?s = ''class '' @ ''InputServiceImpl'' @ '' : InputService()'' \<and>
      ''InputServiceImpl'' \<noteq> [] \<and> (\<forall>c\<in>set ''InputServiceImpl''. is_word c) \<and>
      ''InputServiceImpl'' \<noteq> old_service default_cfg \<and>
      (''class '' = [] \<or> \<not> is_word (last ''class '')) \<and>
      ('' : InputService()'' = [] \<or> \<not> is_word (hd '' : InputService()''))"
    by code_simp
  from th split obtain x y where
    x: "re_sub (safe_word_replace (old_service default_cfg)) (new_service default_cfg) ''class '' = Inr x"
    and y: "re_sub (safe_word_replace (old_service default_cfg)) (new_service default_cfg)
        '' : InputService()'' = Inr y"
    and xy: "re_sub (safe_word_replace (old_service default_cfg)) (new_service default_cfg) ?s =
        Inr (x @ ''InputServiceImpl'' @ y)"
    by blast
  have x': "re_sub (safe_word_replace (old_service default_cfg)) (new_service default_cfg) ''class '' =
      Inr ''class ''" by code_simp
  have y': "re_sub (safe_word_replace (old_service default_cfg)) (new_service default_cfg)
      '' : InputService()'' = Inr '' : ToddService()''" by code_simp
  from x x' y y' have "x = ''class ''" "y = '' : ToddService()''" by simp_all
  with xy have one: "re_sub (safe_word_replace (old_service default_cfg)) (new_service default_cfg) ?s =
      Inr (''class '' @ ''InputServiceImpl'' @ '' : ToddService()'')" by simp
  from th have "re_sub (safe_word_replace (old_service default_cfg)) (new_service default_cfg) ?s =
      Inr (replace_whole_tokens (old_service default_cfg) (expand ?t (old_service default_cfg) []) ?s)"
    by blast
  then have two: "re_sub (safe_word_replace (old_service default_cfg)) (new_service default_cfg) ?s =
      Inr (replace_whole_tokens ''InputService'' ''ToddService'' ?s)"
    by (simp only: os ex)
  from one two show ?thesis by blast
qed






text \<open>
  C10, as the code has it. The test at the start of the run is \<^verbatim>\<open>exists()\<close>, which a
  regular file passes. With a file at \<^verbatim>\<open>flutter/android\<close> the repository has no such
  subtree, yet nothing is found to scan, the run ends with status 0 and the report is
  written.
\<close>

theorem main_with_file_at_android_root_counterexample:
  "\<not> is_dir file_at_android_root (android_root [''r'']) \<and>
   iter_text_files file_at_android_root (android_root [''r'']) = [] \<and>
   fst (main [''r''] default_cfg False (\<lambda>p. False) file_at_android_root) = Success 0 0 \<and>
   exit_status (fst (main [''r''] default_cfg False (\<lambda>p. False) file_at_android_root)) = 0 \<and>
   written (snd (main [''r''] default_cfg False (\<lambda>p. False) file_at_android_root)) =
     [report_path [''r'']]"
  by code_simp

text \<open>
  C10, amended. When nothing exists at \<^verbatim>\<open>flutter/android\<close> under the repository, neither
  a directory nor a file, the run ends at once with the fatal error and a status that is
  not 0; the tree is as it was and nothing has been written, neither a source file nor the
  report.
\<close>

theorem main_without_android_root:
  assumes "\<not> path_exists w (android_root repo)"
  shows "main repo cfg move_dir faulty w = (Failure NoAndroidRoot, w) \<and>
         exit_status (fst (main repo cfg move_dir faulty w)) \<noteq> 0"
  using assms by (simp add: main_def patch_def exit_status_def)

theorem main_without_android_root_witness:
  "\<not> path_exists \<lparr>tree = [([''r''], Dir)], written = []\<rparr> (android_root [''r'']) \<and>
   main [''r''] default_cfg True (\<lambda>p. False) \<lparr>tree = [([''r''], Dir)], written = []\<rparr> =
     (Failure NoAndroidRoot, \<lparr>tree = [([''r''], Dir)], written = []\<rparr>) \<and>
   exit_status (fst (main [''r''] default_cfg True (\<lambda>p. False)
     \<lparr>tree = [([''r''], Dir)], written = []\<rparr>)) \<noteq> 0"
proof -
  have h: "\<not> path_exists \<lparr>tree = [([''r''], Dir)], written = []\<rparr> (android_root [''r''])"
    by (simp add: path_exists_def node_at_def android_root_def)
  from h main_without_android_root [OF h] show ?thesis by blast
qed

end
